theory Spec2Isabelle
  imports Main "HOL-Library.Word" "HOL-Library.Multiset"
begin

unbundle bit_operations_syntax

section \<open>Data model of geocollection.go\<close>

subsection \<open>float64 coordinates\<close>

text \<open>
  Latitude and longitude are Go \<^verbatim>\<open>float64\<close> values.  The collection never does
  arithmetic on them: it stores them, hands them to the S2 library and compares them with
  \<^verbatim>\<open>==\<close> (line 88).  A coordinate is therefore modelled by its IEEE 754 binary64 bit
  pattern, and \<open>float64_eq\<close> is Go's \<^verbatim>\<open>==\<close> on such values: a NaN equals nothing,
  not even itself, and the two zeros equal each other.
\<close>

type_synonym float64 = "64 word"

definition float64_isNaN :: "float64 \<Rightarrow> bool" where
  "float64_isNaN x =
     (x AND 0x7FF0000000000000 = 0x7FF0000000000000 \<and> x AND 0x000FFFFFFFFFFFFF \<noteq> 0)"

definition float64_isZero :: "float64 \<Rightarrow> bool" where
  "float64_isZero x = (x AND 0x7FFFFFFFFFFFFFFF = 0)"

definition float64_eq :: "float64 \<Rightarrow> float64 \<Rightarrow> bool" where
  "float64_eq x y =
     (\<not> float64_isNaN x \<and> \<not> float64_isNaN y \<and> (x = y \<or> (float64_isZero x \<and> float64_isZero y)))"

subsection \<open>Types of the collection\<close>

text \<open>\<^verbatim>\<open>s2.CellID\<close> is a \<^verbatim>\<open>uint64\<close>.\<close>

type_synonym CellID = "64 word"

text \<open>\<^verbatim>\<open>const maxCellLevel = 30\<close>\<close>

definition maxCellLevel :: int where
  "maxCellLevel = 30"

text \<open>
  \<^verbatim>\<open>type cellItems map[uint64]map[interface{}]bool\<close>.  The inner map only ever
  receives the value \<^verbatim>\<open>true\<close> and is only ranged over and deleted from, so it is the
  set of its keys.
\<close>

type_synonym 'k cellItems = "64 word \<rightharpoonup> 'k set"

record itemIndex =
  cellPosition :: "64 word"
  cellLevel :: int

text \<open>
  \<^verbatim>\<open>contents interface{}\<close>: the value \<open>None\<close> is Go's \<^verbatim>\<open>nil\<close> interface value,
  \<open>Some v\<close> any other payload.
\<close>

record 'v collectionContents =
  contents :: "'v option"
  latitude :: float64
  longitude :: float64

text \<open>
  The three maps of \<^verbatim>\<open>Collection\<close>.  Keys are values of a type \<open>'k\<close> with the
  equality of HOL (the repository's tests use \<^verbatim>\<open>int\<close> keys); an \<^verbatim>\<open>interface{}\<close> key
  that Go cannot hash, which makes every map access panic, or that does not equal itself
  (a NaN) is not a value of \<open>'k\<close>.  The mutex is not modelled: every operation below is
  one critical section, and the model runs them one after the other.
\<close>

record ('k, 'v) Collection =
  cells :: "int \<rightharpoonup> 'k cellItems"
  keys :: "'k \<rightharpoonup> itemIndex list"
  items :: "'k \<rightharpoonup> 'v collectionContents"

record SearchCoveringParameters =
  LevelMod :: int
  MaxCells :: int
  MaxLevel :: int
  MinLevel :: int
  UseFastCovering :: bool

subsection \<open>The S2 library, as far as the collection calls it\<close>

text \<open>
  \<^verbatim>\<open>s2.RegionCoverer\<close> as built on lines 164--169, and the search cap of lines 160--162,
  which is determined by the centre and the distance in metres (the division by
  \<open>EarthRadiusMeters\<close> and the construction of the cap are floating-point work of the
  library and stay inside \<open>Covering\<close> and \<open>FastCovering\<close> below).
\<close>

record RegionCoverer =
  rcMaxLevel :: int
  rcMinLevel :: int
  rcLevelMod :: int
  rcMaxCells :: int

record SearchCap =
  capLatitude :: float64
  capLongitude :: float64
  capDistanceMeters :: float64

text \<open>
  The functions of \<^verbatim>\<open>github.com/golang/geo/s2\<close> that geocollection.go calls.  The library
  is not part of the repository, so the collection is verified for every such record:
  \<^item> \<open>CellIDFromLatLng lat lon\<close> is \<^verbatim>\<open>s2.CellIDFromLatLng(s2.LatLngFromDegrees(lat, lon))\<close>;
  \<^item> \<open>Parent\<close>, \<open>Pos\<close>, \<open>Level\<close> are the methods of \<^verbatim>\<open>s2.CellID\<close>;
  \<^item> \<open>Covering\<close> and \<open>FastCovering\<close> are the two methods of \<^verbatim>\<open>s2.RegionCoverer\<close>, applied
    to the search cap;
  \<^item> \<open>VertexLngLat cell i\<close> is the pair \<^verbatim>\<open>(ll.Lng.Degrees(), ll.Lat.Degrees())\<close> of lines
    186--188 for vertex \<open>i\<close> of the cell.
\<close>

record geometry =
  CellIDFromLatLng :: "float64 \<Rightarrow> float64 \<Rightarrow> CellID"
  Parent :: "CellID \<Rightarrow> int \<Rightarrow> CellID"
  Pos :: "CellID \<Rightarrow> 64 word"
  Level :: "CellID \<Rightarrow> int"
  Covering :: "RegionCoverer \<Rightarrow> SearchCap \<Rightarrow> CellID list"
  FastCovering :: "RegionCoverer \<Rightarrow> SearchCap \<Rightarrow> CellID list"
  VertexLngLat :: "CellID \<Rightarrow> nat \<Rightarrow> float64 \<times> float64"

section \<open>The operations\<close>

text \<open>\<^verbatim>\<open>func NewCollection() Collection\<close>\<close>

definition NewCollection :: "('k, 'v) Collection" where
  "NewCollection = \<lparr>cells = Map.empty, keys = Map.empty, items = Map.empty\<rparr>"

text \<open>
  Line 132, \<^verbatim>\<open>delete(c.cells[index.cellLevel][index.cellPosition], key)\<close>: reading a missing
  level or a missing position yields a nil map, and deleting from a nil map does nothing.
\<close>

definition cells_delete :: "(int \<rightharpoonup> 'k cellItems) \<Rightarrow> int \<Rightarrow> 64 word \<Rightarrow> 'k \<Rightarrow> (int \<rightharpoonup> 'k cellItems)" where
  "cells_delete cs level pos key =
     (case cs level of
        None \<Rightarrow> cs
      | Some m \<Rightarrow>
          (case m pos of
             None \<Rightarrow> cs
           | Some s \<Rightarrow> cs(level \<mapsto> m(pos \<mapsto> s - {key}))))"

text \<open>The loop of lines 131--133 over the key's reverse-index list.\<close>

fun delete_loop :: "itemIndex list \<Rightarrow> 'k \<Rightarrow> (int \<rightharpoonup> 'k cellItems) \<Rightarrow> (int \<rightharpoonup> 'k cellItems)" where
  "delete_loop [] key cs = cs"
| "delete_loop (index # itemIndices) key cs =
     delete_loop itemIndices key (cells_delete cs (cellLevel index) (cellPosition index) key)"

text \<open>
  \<^verbatim>\<open>func (c Collection) delete(key interface{})\<close>, lines 125--135: the item record goes
  first; without a reverse-index entry the function returns there.
\<close>

definition delete :: "'k \<Rightarrow> ('k, 'v) Collection \<Rightarrow> ('k, 'v) Collection" where
  "delete key c =
     (let c1 = c\<lparr>items := (items c)(key := None)\<rparr> in
      case keys c1 key of
        None \<Rightarrow> c1
      | Some itemIndices \<Rightarrow>
          c1\<lparr>cells := delete_loop itemIndices key (cells c1),
             keys := (keys c1)(key := None)\<rparr>)"

text \<open>\<^verbatim>\<open>func (c Collection) Delete(key interface{})\<close>: \<open>delete\<close> under the write lock.\<close>

definition Delete :: "'k \<Rightarrow> ('k, 'v) Collection \<Rightarrow> ('k, 'v) Collection" where
  "Delete key c = delete key c"

text \<open>
  Lines 99--106: create the level's map and the cell's set when they are missing, then
  put the key into the set.
\<close>

definition cells_add :: "(int \<rightharpoonup> 'k cellItems) \<Rightarrow> int \<Rightarrow> 64 word \<Rightarrow> 'k \<Rightarrow> (int \<rightharpoonup> 'k cellItems)" where
  "cells_add cs level cellPos key =
     (let m = (case cs level of None \<Rightarrow> Map.empty | Some m \<Rightarrow> m);
          s = (case m cellPos of None \<Rightarrow> {} | Some s \<Rightarrow> s)
      in cs(level \<mapsto> m(cellPos \<mapsto> insert key s)))"

text \<open>
  One pass through the body of the loop of lines 98--114.  \<^verbatim>\<open>append\<close> to the list of a
  key without an entry appends to the nil slice.
\<close>

definition set_body :: "geometry \<Rightarrow> 'k \<Rightarrow> CellID \<Rightarrow> int \<Rightarrow> ('k, 'v) Collection \<Rightarrow> ('k, 'v) Collection" where
  "set_body g key leafCellID level c =
     (let cellPos = Pos g (Parent g leafCellID level) in
      c\<lparr>cells := cells_add (cells c) level cellPos key,
        keys := (keys c)(key \<mapsto>
                  (case keys c key of None \<Rightarrow> [] | Some l \<Rightarrow> l)
                    @ [\<lparr>cellPosition = cellPos, cellLevel = level\<rparr>])\<rparr>)"

text \<open>\<^verbatim>\<open>for level := maxCellLevel; level >= 0; level--\<close>, entered with \<open>level\<close>.\<close>

function set_loop :: "geometry \<Rightarrow> 'k \<Rightarrow> CellID \<Rightarrow> int \<Rightarrow> ('k, 'v) Collection \<Rightarrow> ('k, 'v) Collection" where
  "set_loop g key leafCellID level c =
     (if level \<ge> 0
      then set_loop g key leafCellID (level - 1) (set_body g key leafCellID level c)
      else c)"
  by pat_completeness auto
termination
  by (relation "measure (\<lambda>(g, key, leafCellID, level, c). nat (level + 1))") auto

declare set_loop.simps [simp del]

text \<open>
  \<^verbatim>\<open>func (c Collection) Set(key, contents interface{}, latitude, longitude float64)\<close>,
  lines 82--115.
\<close>

definition Set :: "geometry \<Rightarrow> 'k \<Rightarrow> 'v option \<Rightarrow> float64 \<Rightarrow> float64 \<Rightarrow> ('k, 'v) Collection \<Rightarrow> ('k, 'v) Collection" where
  "Set g key cont lat lon c =
     (let newContents = \<lparr>contents = cont, latitude = lat, longitude = lon\<rparr> in
      if (case items c key of
            None \<Rightarrow> False
          | Some existingContents \<Rightarrow>
              float64_eq (latitude existingContents) lat \<and>
              float64_eq (longitude existingContents) lon)
      then c\<lparr>items := (items c)(key \<mapsto> newContents)\<rparr>
      else
        (let c1 = delete key c;
             c2 = c1\<lparr>items := (items c1)(key \<mapsto> newContents)\<rparr>;
             c3 = c2\<lparr>keys := (keys c2)(key \<mapsto> [])\<rparr>;
             leafCellID = CellIDFromLatLng g lat lon
         in set_loop g key leafCellID maxCellLevel c3))"

text \<open>
  \<^verbatim>\<open>func (c Collection) ItemByKey(key interface{}) interface{}\<close>, lines 202--210.
\<close>

definition ItemByKey :: "('k, 'v) Collection \<Rightarrow> 'k \<Rightarrow> 'v option" where
  "ItemByKey c key =
     (case items c key of
        None \<Rightarrow> None
      | Some cont \<Rightarrow> contents cont)"

subsection \<open>ItemsWithinDistance\<close>

text \<open>Lines 160--176: the covering of the search cap.\<close>

definition cellUnion :: "geometry \<Rightarrow> float64 \<Rightarrow> float64 \<Rightarrow> float64 \<Rightarrow> SearchCoveringParameters \<Rightarrow> CellID list" where
  "cellUnion g lat lon distanceMeters params =
     (let searchCap = \<lparr>capLatitude = lat, capLongitude = lon, capDistanceMeters = distanceMeters\<rparr>;
          coverer = \<lparr>rcMaxLevel = MaxLevel params, rcMinLevel = MinLevel params,
                     rcLevelMod = LevelMod params, rcMaxCells = MaxCells params\<rparr>
      in if UseFastCovering params then FastCovering g coverer searchCap
         else Covering g coverer searchCap)"

text \<open>
  \<^verbatim>\<open>c.cells[level][pos]\<close> as the loop of line 193 reads it: a missing level or position is
  a nil map, which ranges over nothing.
\<close>

definition slot :: "(int \<rightharpoonup> 'k cellItems) \<Rightarrow> int \<Rightarrow> 64 word \<Rightarrow> 'k set" where
  "slot cs level pos =
     (case cs level of
        None \<Rightarrow> {}
      | Some m \<Rightarrow> (case m pos of None \<Rightarrow> {} | Some s \<Rightarrow> s))"

text \<open>Lines 184--191: the four vertices of a cell, the first one repeated at the end.\<close>

definition cellVertices :: "geometry \<Rightarrow> CellID \<Rightarrow> (float64 \<times> float64) list" where
  "cellVertices g cell =
     (let vertices = map (VertexLngLat g cell) [0, 1, 2, 3] in vertices @ [vertices ! 0])"

text \<open>
  The keys that the loop of lines 182--196 meets, one occurrence for every time it meets
  the key.  Go ranges over a map in no fixed order, so the keys met, and the contents
  returned, are multisets: the returned slice is some ordering of \<open>foundItems\<close>.  (The
  sets of a collection built by \<open>Set\<close> and \<open>Delete\<close> are finite, so \<open>mset_set\<close> lists
  each of their keys once.)
\<close>

fun foundKeys :: "geometry \<Rightarrow> ('k, 'v) Collection \<Rightarrow> CellID list \<Rightarrow> 'k multiset" where
  "foundKeys g c [] = {#}"
| "foundKeys g c (cell # rest) =
     mset_set (slot (cells c) (Level g cell) (Pos g cell)) + foundKeys g c rest"

text \<open>
  Line 194, \<^verbatim>\<open>c.items[key].contents\<close>: a key without a record reads the zero record,
  whose contents are nil.
\<close>

definition foundItems :: "geometry \<Rightarrow> ('k, 'v) Collection \<Rightarrow> CellID list \<Rightarrow> 'v option multiset" where
  "foundItems g c cu =
     image_mset (\<lambda>key. case items c key of None \<Rightarrow> None | Some cont \<Rightarrow> contents cont)
       (foundKeys g c cu)"

definition ItemsWithinDistance ::
  "geometry \<Rightarrow> ('k, 'v) Collection \<Rightarrow> float64 \<Rightarrow> float64 \<Rightarrow> float64 \<Rightarrow> SearchCoveringParameters
     \<Rightarrow> 'v option multiset \<times> (float64 \<times> float64) list list" where
  "ItemsWithinDistance g c lat lon distanceMeters params =
     (let cu = cellUnion g lat lon distanceMeters params
      in (foundItems g c cu, map (cellVertices g) cu))"

subsection \<open>Sequences of operations\<close>

text \<open>
  The states of a collection are the ones its exported mutators build from
  \<open>NewCollection\<close>: the fields are unexported.
\<close>

datatype ('k, 'v) operation =
  OpSet 'k "'v option" float64 float64
| OpDelete 'k

fun apply_operation :: "geometry \<Rightarrow> ('k, 'v) operation \<Rightarrow> ('k, 'v) Collection \<Rightarrow> ('k, 'v) Collection" where
  "apply_operation g (OpSet key cont lat lon) c = Set g key cont lat lon c"
| "apply_operation g (OpDelete key) c = Delete key c"

definition run :: "geometry \<Rightarrow> ('k, 'v) operation list \<Rightarrow> ('k, 'v) Collection" where
  "run g ops = fold (apply_operation g) ops NewCollection"


section \<open>GetItems\<close>

text \<open>
  Modelled from the spec: \<^verbatim>\<open>GetItems(pageSize, startIndex)\<close> is called by
  \<^verbatim>\<open>TestCollection_GetItems\<close>, but its definition is not among the source files.  The
  spec says that it returns a bounded slice of the stored contents, at most \<open>pageSize\<close> of
  them, starting at \<open>startIndex\<close> of an enumeration of the stored items whose order is
  not fixed, and the empty sequence when \<open>startIndex\<close> is not below the number of stored
  items.  The enumeration is the argument \<open>enumeration\<close>, a list of the keys of the
  item-record map; a negative \<open>pageSize\<close> or \<open>startIndex\<close>, on which the spec is silent, is
  read as 0.
\<close>

definition GetItems :: "'k list \<Rightarrow> ('k, 'v) Collection \<Rightarrow> int \<Rightarrow> int \<Rightarrow> 'v option list" where
  "GetItems enumeration c pageSize startIndex =
     take (nat pageSize) (drop (nat startIndex) (map (ItemByKey c) enumeration))"

section \<open>The cell identifiers of S2\<close>

text \<open>
  The methods of \<^verbatim>\<open>s2.CellID\<close> that the collection calls are bit operations on the
  64-bit identifier (\<^verbatim>\<open>s2/cellid.go\<close> of \<^verbatim>\<open>github.com/golang/geo\<close>): the three top
  bits are the cube face, two bits per level follow, then a single 1 bit closes the
  identifier.
  \<^verbatim>\<open>
  func lsbForLevel(level int) uint64 { return 1 << uint64(2*(MaxLevel-level)) }
  func (ci CellID) Parent(level int) CellID {
      lsb := lsbForLevel(level)
      return CellID((uint64(ci) & -lsb) | lsb)
  }
  func (ci CellID) Pos() uint64 { return uint64(ci) & (^uint64(0) >> FaceBits) }
  func (ci CellID) Level() int { return MaxLevel - findLSBSetNonZero64(uint64(ci))>>1 }
  \<close>
  with \<^verbatim>\<open>MaxLevel = 30\<close> and \<^verbatim>\<open>FaceBits = 3\<close>.  They are used for the concrete runs
  of this file; the theorems that hold of every geometry do not depend on them.
\<close>

definition s2_lsbForLevel :: "int \<Rightarrow> 64 word" where
  "s2_lsbForLevel level = (if level > 30 then 0 else push_bit (nat (2 * (30 - level))) 1)"

definition s2_Parent :: "CellID \<Rightarrow> int \<Rightarrow> CellID" where
  "s2_Parent ci level = (let lsb = s2_lsbForLevel level in (ci AND (- lsb)) OR lsb)"

definition s2_Pos :: "CellID \<Rightarrow> 64 word" where
  "s2_Pos ci = ci AND 0x1FFFFFFFFFFFFFFF"

text \<open>The number of trailing zero bits among the lowest \<open>n\<close> bits.\<close>

fun trailingZeros :: "nat \<Rightarrow> 64 word \<Rightarrow> nat" where
  "trailingZeros 0 x = 0"
| "trailingZeros (Suc n) x = (if bit x 0 then 0 else Suc (trailingZeros n (drop_bit 1 x)))"

definition s2_Level :: "CellID \<Rightarrow> int" where
  "s2_Level ci = 30 - int (drop_bit 1 (trailingZeros 64 ci))"

subsection \<open>The coordinates and cells of the repository's tests\<close>

text \<open>
  \<^verbatim>\<open>cell1\<close> (downtown Chicago) and \<^verbatim>\<open>cell2\<close> (midtown Manhattan) of the test file, as
  binary64 bit patterns: 41.87963549397698, -87.63028184499035, 40.75306726395187 and
  -73.98119781456353.
\<close>

definition chicago_lat :: float64 where "chicago_lat = 0x4044f097e5578416"
definition chicago_lon :: float64 where "chicago_lon = 0xc055e85689a9dfc0"
definition manhattan_lat :: float64 where "manhattan_lat = 0x4044606482132e45"
definition manhattan_lon :: float64 where "manhattan_lon = 0xc0527ecbf1eb1d40"

text \<open>
  The search point of \<^verbatim>\<open>TestCollection_ItemsWithinDistance\<close>, \<^verbatim>\<open>cell1.lat - 0.001\<close> and
  \<^verbatim>\<open>cell1.lon - 0.001\<close>; the distances 1000 and 20000000 metres (on a sphere of radius
  \<open>EarthRadiusMeters\<close> the antipode is 20015114 metres away, so a cap of 20000000 metres
  leaves out a disc of about 15 kilometres around the antipode of its centre); a NaN.
\<close>

definition search_lat :: float64 where "search_lat = 0x4044f07720bbde33"
definition search_lon :: float64 where "search_lon = 0xc055e866ebf7b2b2"
definition meters_1000 :: float64 where "meters_1000 = 0x408f400000000000"
definition meters_20000000 :: float64 where "meters_20000000 = 0x417312d000000000"
definition float64_NaN :: float64 where "float64_NaN = 0x7ff8000000000000"

text \<open>
  The leaf cell of Chicago is the token \<^verbatim>\<open>880e2cbc904a0c29\<close> of the test file.  The leaf
  cell of Manhattan is the level-30 cell of that point; its ancestor at level 20 is the
  test file's token \<^verbatim>\<open>89c25900437\<close>.  Every other coordinate is sent to the leaf cell of
  latitude 0, longitude 0; the runs below use the two test points only.
\<close>

definition chicago_leaf :: CellID where "chicago_leaf = 0x880e2cbc904a0c29"
definition manhattan_leaf :: CellID where "manhattan_leaf = 0x89c25900436764af"

definition sample_CellIDFromLatLng :: "float64 \<Rightarrow> float64 \<Rightarrow> CellID" where
  "sample_CellIDFromLatLng lat lon =
     (if float64_eq lat chicago_lat \<and> float64_eq lon chicago_lon then chicago_leaf
      else if float64_eq lat manhattan_lat \<and> float64_eq lon manhattan_lon then manhattan_leaf
      else 0x1000000000000001)"

text \<open>The six face cells, which are the cells of level 0.\<close>

definition faceCells :: "CellID list" where
  "faceCells = [0x1000000000000000, 0x3000000000000000, 0x5000000000000000,
                0x7000000000000000, 0x9000000000000000, 0xb000000000000000]"

text \<open>
  The coverings of the two searches that this file runs.  With \<^verbatim>\<open>MinLevel = MaxLevel = 5\<close>
  the cap of 1000 metres around the test's search point lies inside one cell of level 5,
  the ancestor \<^verbatim>\<open>880c\<close> of Chicago's leaf cell.  With \<^verbatim>\<open>MinLevel = MaxLevel = 0\<close> a
  covering consists of face cells, and the cap of 20000000 metres meets all six of them.
  Every other search is given the empty covering here; no run below makes one.  The
  vertices of a cell are floating-point values that no statement below reads; the
  sample gives every vertex the coordinates 0, 0.
\<close>

definition sample_Covering :: "RegionCoverer \<Rightarrow> SearchCap \<Rightarrow> CellID list" where
  "sample_Covering coverer searchCap =
     (if rcMinLevel coverer = 5 \<and> rcMaxLevel coverer = 5 \<and>
         capLatitude searchCap = search_lat \<and> capLongitude searchCap = search_lon \<and>
         capDistanceMeters searchCap = meters_1000
      then [0x880c000000000000]
      else if rcMinLevel coverer = 0 \<and> rcMaxLevel coverer = 0 \<and>
         capDistanceMeters searchCap = meters_20000000
      then faceCells
      else [])"

definition s2_sample :: geometry where
  "s2_sample =
     \<lparr>CellIDFromLatLng = sample_CellIDFromLatLng, Parent = s2_Parent, Pos = s2_Pos,
      Level = s2_Level, Covering = sample_Covering, FastCovering = sample_Covering,
      VertexLngLat = (\<lambda>cell i. (0, 0))\<rparr>"

section \<open>Notions used in the statements\<close>

text \<open>
  The reverse-index list that the loop of \<open>Set\<close> builds for a leaf cell when it is
  entered with \<open>level\<close>: one entry per level, from \<open>level\<close> down to 0.
\<close>

definition ancestorIndices :: "geometry \<Rightarrow> CellID \<Rightarrow> int \<Rightarrow> itemIndex list" where
  "ancestorIndices g leafCellID level =
     map (\<lambda>l. \<lparr>cellPosition = Pos g (Parent g leafCellID l), cellLevel = l\<rparr>) (rev [0..level])"

text \<open>
  The leaf cell is a function of the coordinates as numbers: coordinates that Go's
  \<^verbatim>\<open>==\<close> equates (the two zeros) have the same leaf cell.
\<close>

definition leaf_of_value :: "geometry \<Rightarrow> bool" where
  "leaf_of_value g =
     (\<forall>lat lon lat' lon'. float64_eq lat lat' \<and> float64_eq lon lon' \<longrightarrow>
        CellIDFromLatLng g lat lon = CellIDFromLatLng g lat' lon')"

text \<open>
  A cell of the covering contains a leaf cell: its level is one of the 31 levels and it
  is the leaf's ancestor at that level.
\<close>

definition cell_contains :: "geometry \<Rightarrow> CellID \<Rightarrow> CellID \<Rightarrow> bool" where
  "cell_contains g cell leafCellID =
     (0 \<le> Level g cell \<and> Level g cell \<le> maxCellLevel \<and> Parent g leafCellID (Level g cell) = cell)"

text \<open>The test of line 87--88 that sends \<open>Set\<close> into its first branch.\<close>

definition same_place :: "('k, 'v) Collection \<Rightarrow> 'k \<Rightarrow> float64 \<Rightarrow> float64 \<Rightarrow> bool" where
  "same_place c key lat lon =
     (case items c key of
        None \<Rightarrow> False
      | Some existingContents \<Rightarrow>
          float64_eq (latitude existingContents) lat \<and>
          float64_eq (longitude existingContents) lon)"

text \<open>
  The coordinates \<open>la\<close>, \<open>lo\<close> a record was last indexed at: the stored ones, or ones that
  \<^verbatim>\<open>==\<close> equates with them (the first branch of \<open>Set\<close> stores new coordinates and
  keeps the index).
\<close>

definition same_location :: "float64 \<Rightarrow> float64 \<Rightarrow> 'v collectionContents \<Rightarrow> bool" where
  "same_location la lo r =
     ((la = latitude r \<and> lo = longitude r) \<or>
      (float64_eq la (latitude r) \<and> float64_eq lo (longitude r)))"

text \<open>
  The invariant of the three maps: records and reverse-index lists have the same keys,
  the list of a key is the one \<open>Set\<close> builds for its location, and a key is in a set of
  the cell index exactly when its list names that set.
\<close>

definition index_inv :: "geometry \<Rightarrow> ('k, 'v) Collection \<Rightarrow> bool" where
  "index_inv g c =
     (finite (dom (keys c)) \<and> dom (items c) = dom (keys c) \<and>
      (\<forall>k r. items c k = Some r \<longrightarrow>
         (\<exists>la lo. same_location la lo r \<and>
            keys c k = Some (ancestorIndices g (CellIDFromLatLng g la lo) maxCellLevel))) \<and>
      (\<forall>l p k. k \<in> slot (cells c) l p \<longleftrightarrow>
         (\<exists>idxs. keys c k = Some idxs \<and> \<lparr>cellPosition = p, cellLevel = l\<rparr> \<in> set idxs)))"

text \<open>The set stored at a level and position, if there is one.\<close>

definition cell_at :: "(int \<rightharpoonup> 'k cellItems) \<Rightarrow> int \<Rightarrow> 64 word \<Rightarrow> 'k set option" where
  "cell_at cs l p = (case cs l of None \<Rightarrow> None | Some m \<Rightarrow> m p)"


section \<open>The effect of delete and Set, pointwise\<close>


lemma slot_cells_delete:
  "slot (cells_delete cs l p k) l' p' =
     (if l' = l \<and> p' = p then slot cs l p - {k} else slot cs l' p')"
  by (auto simp: slot_def cells_delete_def split: option.splits)

lemma slot_delete_loop:
  "slot (delete_loop idxs k cs) l p =
     (if \<lparr>cellPosition = p, cellLevel = l\<rparr> \<in> set idxs then slot cs l p - {k} else slot cs l p)"
proof (induction idxs arbitrary: cs)
  case Nil
  then show ?case by simp
next
  case (Cons index idxs)
  have eq: "(\<lparr>cellPosition = p, cellLevel = l\<rparr> = index) = (l = cellLevel index \<and> p = cellPosition index)"
    by (cases index) auto
  show ?case
    by (auto simp: Cons.IH slot_cells_delete eq)
qed

lemma slot_cells_add:
  "slot (cells_add cs l p k) l' p' =
     (if l' = l \<and> p' = p then insert k (slot cs l p) else slot cs l' p')"
  by (auto simp: slot_def cells_add_def Let_def split: option.splits)

lemma rev_upto_rec: "0 \<le> lv \<Longrightarrow> rev [0..lv] = lv # rev [0..lv - 1]"
  by (simp add: upto_rec2)

lemma ancestorIndices_rec: "0 \<le> lv \<Longrightarrow>
  ancestorIndices g leaf lv = \<lparr>cellPosition = Pos g (Parent g leaf lv), cellLevel = lv\<rparr> # ancestorIndices g leaf (lv - 1)"
  by (simp add: ancestorIndices_def rev_upto_rec)

lemma ancestorIndices_0: "ancestorIndices g leaf 0 = [\<lparr>cellPosition = Pos g (Parent g leaf 0), cellLevel = 0\<rparr>]"
  by (simp add: ancestorIndices_def)

lemma items_set_loop: "items (set_loop g k leaf lv c) = items c"
proof (induction g k leaf lv c rule: set_loop.induct)
  case (1 g key leafCellID level c)
  show ?case
  proof (cases "level \<ge> 0")
    case True
    then show ?thesis using 1 by (subst set_loop.simps) (simp add: set_body_def Let_def)
  next
    case False
    then show ?thesis by (subst set_loop.simps) simp
  qed
qed

lemma keys_set_body:
  "keys (set_body g k leaf lv c) =
     (keys c)(k \<mapsto> (case keys c k of None \<Rightarrow> [] | Some xs \<Rightarrow> xs)
        @ [\<lparr>cellPosition = Pos g (Parent g leaf lv), cellLevel = lv\<rparr>])"
  by (simp add: set_body_def Let_def)

lemma keys_set_loop:
  "keys (set_loop g k leaf lv c) =
     (if lv \<ge> 0 then (keys c)(k \<mapsto> (case keys c k of None \<Rightarrow> [] | Some xs \<Rightarrow> xs) @ ancestorIndices g leaf lv)
      else keys c)"
proof (induction g k leaf lv c rule: set_loop.induct)
  case (1 g key leafCellID level c)
  show ?case
  proof (cases "level \<ge> 0")
    case True
    let ?c' = "set_body g key leafCellID level c"
    have step: "keys (set_loop g key leafCellID level c) = keys (set_loop g key leafCellID (level - 1) ?c')"
      using True by (subst set_loop.simps) simp
    have ih: "keys (set_loop g key leafCellID (level - 1) ?c') =
      (if level - 1 \<ge> 0
       then (keys ?c')(key \<mapsto> (case keys ?c' key of None \<Rightarrow> [] | Some xs \<Rightarrow> xs) @ ancestorIndices g leafCellID (level - 1))
       else keys ?c')"
      using 1 True by simp
    show ?thesis
    proof (cases "level - 1 \<ge> 0")
      case True
      then show ?thesis
        unfolding step ih keys_set_body using \<open>level \<ge> 0\<close>
        by (simp add: ancestorIndices_rec[of level])
    next
      case False
      then show ?thesis
        unfolding step ih keys_set_body using \<open>level \<ge> 0\<close>
        by (simp add: ancestorIndices_0)
    qed
  next
    case False
    then show ?thesis by (subst set_loop.simps) simp
  qed
qed

lemma slot_set_loop:
  "slot (cells (set_loop g k leaf lv c)) l p =
     (if 0 \<le> l \<and> l \<le> lv \<and> p = Pos g (Parent g leaf l) then insert k (slot (cells c) l p)
      else slot (cells c) l p)"
proof (induction g k leaf lv c rule: set_loop.induct)
  case (1 g key leafCellID level c)
  show ?case
  proof (cases "level \<ge> 0")
    case True
    with 1 show ?thesis
      by (subst set_loop.simps) (auto simp: set_body_def Let_def slot_cells_add)
  next
    case False
    then show ?thesis by (subst set_loop.simps) auto
  qed
qed


lemma mem_ancestorIndices:
  "\<lparr>cellPosition = p, cellLevel = l\<rparr> \<in> set (ancestorIndices g leaf lv) \<longleftrightarrow>
     0 \<le> l \<and> l \<le> lv \<and> p = Pos g (Parent g leaf l)"
  by (auto simp: ancestorIndices_def)

lemma items_delete: "items (delete k c) = (items c)(k := None)"
  by (simp add: delete_def Let_def split: option.splits)

lemma keys_delete: "keys (delete k c) = (keys c)(k := None)"
  by (auto simp: delete_def Let_def split: option.splits)

lemma slot_delete:
  "slot (cells (delete k c)) l p =
     (case keys c k of
        None \<Rightarrow> slot (cells c) l p
      | Some idxs \<Rightarrow>
          if \<lparr>cellPosition = p, cellLevel = l\<rparr> \<in> set idxs then slot (cells c) l p - {k}
          else slot (cells c) l p)"
  by (simp add: delete_def Let_def slot_delete_loop split: option.splits)

lemma float64_eq_trans: "float64_eq x y \<Longrightarrow> float64_eq y z \<Longrightarrow> float64_eq x z"
  by (auto simp: float64_eq_def)

lemma index_inv_NewCollection: "index_inv g NewCollection"
  by (simp add: index_inv_def NewCollection_def slot_def)

lemma index_inv_slot_delete:
  assumes "index_inv g c"
  shows "slot (cells (delete k c)) l p = slot (cells c) l p - {k}"
proof (cases "keys c k")
  case None
  with assms have "k \<notin> slot (cells c) l p" by (auto simp: index_inv_def)
  with None show ?thesis by (simp add: slot_delete)
next
  case (Some idxs)
  with assms have "\<lparr>cellPosition = p, cellLevel = l\<rparr> \<notin> set idxs \<Longrightarrow> k \<notin> slot (cells c) l p"
    by (auto simp: index_inv_def)
  with Some show ?thesis by (auto simp: slot_delete)
qed

lemma index_inv_delete:
  assumes "index_inv g c"
  shows "index_inv g (delete k c)"
  unfolding index_inv_def
proof (intro conjI allI impI)
  show "finite (dom (keys (delete k c)))"
    using assms by (simp add: keys_delete index_inv_def)
  show "dom (items (delete k c)) = dom (keys (delete k c))"
    using assms by (simp add: keys_delete items_delete index_inv_def)
next
  fix k' r assume "items (delete k c) k' = Some r"
  then have "k' \<noteq> k" "items c k' = Some r"
    by (auto simp: items_delete split: if_splits)
  then show "\<exists>la lo. same_location la lo r \<and>
            keys (delete k c) k' = Some (ancestorIndices g (CellIDFromLatLng g la lo) maxCellLevel)"
    using assms by (simp add: keys_delete index_inv_def)
next
  fix l p k'
  show "(k' \<in> slot (cells (delete k c)) l p) =
       (\<exists>idxs. keys (delete k c) k' = Some idxs \<and> \<lparr>cellPosition = p, cellLevel = l\<rparr> \<in> set idxs)"
    using assms by (auto simp: index_inv_slot_delete[OF assms] keys_delete index_inv_def)
qed

lemma Set_same_place:
  "same_place c k lat lon \<Longrightarrow>
     Set g k v lat lon c = c\<lparr>items := (items c)(k \<mapsto> \<lparr>contents = v, latitude = lat, longitude = lon\<rparr>)\<rparr>"
  by (simp add: Set_def same_place_def Let_def)

lemma items_Set:
  "items (Set g k v lat lon c) = (items c)(k \<mapsto> \<lparr>contents = v, latitude = lat, longitude = lon\<rparr>)"
  by (simp add: Set_def Let_def items_set_loop items_delete)

lemma keys_Set_reindex:
  "\<not> same_place c k lat lon \<Longrightarrow>
     keys (Set g k v lat lon c) = (keys c)(k \<mapsto> ancestorIndices g (CellIDFromLatLng g lat lon) maxCellLevel)"
  by (simp add: Set_def same_place_def Let_def keys_set_loop keys_delete maxCellLevel_def)

lemma slot_Set_reindex:
  "\<not> same_place c k lat lon \<Longrightarrow>
     slot (cells (Set g k v lat lon c)) l p =
       (if 0 \<le> l \<and> l \<le> maxCellLevel \<and> p = Pos g (Parent g (CellIDFromLatLng g lat lon) l)
        then insert k (slot (cells (delete k c)) l p)
        else slot (cells (delete k c)) l p)"
  by (simp add: Set_def same_place_def Let_def slot_set_loop)

lemma index_inv_Set:
  assumes "index_inv g c"
  shows "index_inv g (Set g k v lat lon c)"
proof (cases "same_place c k lat lon")
  case True
  then obtain r where r: "items c k = Some r" "float64_eq (latitude r) lat" "float64_eq (longitude r) lon"
    by (auto simp: same_place_def split: option.splits)
  from assms r(1) have "\<exists>la lo. same_location la lo r \<and>
      keys c k = Some (ancestorIndices g (CellIDFromLatLng g la lo) maxCellLevel)"
    unfolding index_inv_def by blast
  then obtain la lo where la: "same_location la lo r"
      "keys c k = Some (ancestorIndices g (CellIDFromLatLng g la lo) maxCellLevel)"
    by blast
  have "float64_eq la lat \<and> float64_eq lo lon"
    using la(1) r(2,3) by (auto simp: same_location_def intro: float64_eq_trans)
  then have new: "same_location la lo \<lparr>contents = v, latitude = lat, longitude = lon\<rparr>"
    by (simp add: same_location_def)
  have dom: "dom ((items c)(k \<mapsto> \<lparr>contents = v, latitude = lat, longitude = lon\<rparr>)) = dom (keys c)"
    using assms r(1) by (auto simp: index_inv_def)
  show ?thesis
    unfolding Set_same_place[OF True] index_inv_def
  proof (intro conjI allI impI)
    fix k' r' assume "items (c\<lparr>items := (items c)(k \<mapsto> \<lparr>contents = v, latitude = lat, longitude = lon\<rparr>)\<rparr>) k' = Some r'"
    then show "\<exists>la lo. same_location la lo r' \<and>
       keys (c\<lparr>items := (items c)(k \<mapsto> \<lparr>contents = v, latitude = lat, longitude = lon\<rparr>)\<rparr>) k' =
         Some (ancestorIndices g (CellIDFromLatLng g la lo) maxCellLevel)"
      using assms new la(2) by (cases "k' = k") (auto simp: index_inv_def)
  qed (use assms dom in \<open>auto simp: index_inv_def\<close>)
next
  case False
  let ?c' = "Set g k v lat lon c"
  let ?leaf = "CellIDFromLatLng g lat lon"
  show ?thesis
    unfolding index_inv_def
  proof (intro conjI allI impI)
    show "finite (dom (keys ?c'))"
      using assms by (simp add: keys_Set_reindex[OF False] index_inv_def)
    show "dom (items ?c') = dom (keys ?c')"
      using assms by (simp add: keys_Set_reindex[OF False] items_Set index_inv_def)
  next
    fix k' r' assume a: "items ?c' k' = Some r'"
    show "\<exists>la lo. same_location la lo r' \<and>
        keys ?c' k' = Some (ancestorIndices g (CellIDFromLatLng g la lo) maxCellLevel)"
    proof (cases "k' = k")
      case True
      with a have "r' = \<lparr>contents = v, latitude = lat, longitude = lon\<rparr>" by (simp add: items_Set)
      then have "same_location lat lon r'" by (simp add: same_location_def)
      then show ?thesis using True by (auto simp: keys_Set_reindex[OF False])
    next
      case False
      with a have "items c k' = Some r'" by (simp add: items_Set)
      with assms False show ?thesis by (simp add: keys_Set_reindex[OF \<open>\<not> same_place c k lat lon\<close>] index_inv_def)
    qed
  next
    fix l p k'
    show "(k' \<in> slot (cells ?c') l p) =
       (\<exists>idxs. keys ?c' k' = Some idxs \<and> \<lparr>cellPosition = p, cellLevel = l\<rparr> \<in> set idxs)"
    proof (cases "k' = k")
      case True
      then show ?thesis
        by (auto simp: slot_Set_reindex[OF False] keys_Set_reindex[OF False] mem_ancestorIndices
              index_inv_slot_delete[OF assms])
    next
      case False
      then show ?thesis
        using assms
        by (auto simp: slot_Set_reindex[OF \<open>\<not> same_place c k lat lon\<close>]
              keys_Set_reindex[OF \<open>\<not> same_place c k lat lon\<close>]
              index_inv_slot_delete[OF assms] index_inv_def)
    qed
  qed
qed

lemma index_inv_apply_operation: "index_inv g c \<Longrightarrow> index_inv g (apply_operation g operation c)"
  by (cases operation) (simp_all add: index_inv_Set index_inv_delete Delete_def)

lemma index_inv_fold: "index_inv g c \<Longrightarrow> index_inv g (fold (apply_operation g) ops c)"
  by (induction ops arbitrary: c) (simp_all add: index_inv_apply_operation)

lemma index_inv_run: "index_inv g (run g ops)"
  by (simp add: run_def index_inv_fold index_inv_NewCollection)


lemma cells_eqI:
  assumes "\<And>l. (cs l = None) = (cs' l = None)" and "\<And>l p. cell_at cs l p = cell_at cs' l p"
  shows "cs = cs'"
proof (rule ext)
  fix l
  show "cs l = cs' l"
  proof (cases "cs l")
    case None
    with assms(1)[of l] show ?thesis by simp
  next
    case (Some m)
    with assms(1)[of l] obtain m' where m': "cs' l = Some m'" by auto
    have "m p = m' p" for p
      using assms(2)[of l p] Some m' by (simp add: cell_at_def)
    then have "m = m'" by (rule ext)
    with Some m' show ?thesis by simp
  qed
qed

lemma slot_cell_at: "slot cs l p = (case cell_at cs l p of None \<Rightarrow> {} | Some s \<Rightarrow> s)"
  by (simp add: slot_def cell_at_def split: option.splits)

lemma level_cells_delete: "(cells_delete cs l p k l' = None) = (cs l' = None)"
  by (auto simp: cells_delete_def split: option.splits)

lemma cell_at_cells_delete:
  "cell_at (cells_delete cs l p k) l' p' =
     (if l' = l \<and> p' = p then map_option (\<lambda>s. s - {k}) (cell_at cs l p) else cell_at cs l' p')"
  by (auto simp: cell_at_def cells_delete_def split: option.splits)

lemma level_delete_loop: "(delete_loop idxs k cs l = None) = (cs l = None)"
  by (induction idxs arbitrary: cs) (simp_all add: level_cells_delete)

lemma cell_at_delete_loop_out:
  "\<lparr>cellPosition = p, cellLevel = l\<rparr> \<notin> set idxs \<Longrightarrow> cell_at (delete_loop idxs k cs) l p = cell_at cs l p"
proof (induction idxs arbitrary: cs)
  case Nil
  then show ?case by simp
next
  case (Cons index idxs)
  then have "\<not> (l = cellLevel index \<and> p = cellPosition index)"
    by (cases index) auto
  with Cons show ?case by (auto simp: cell_at_cells_delete)
qed

lemma cell_at_delete_loop_in:
  "\<lparr>cellPosition = p, cellLevel = l\<rparr> \<in> set idxs \<Longrightarrow>
     cell_at (delete_loop idxs k cs) l p = map_option (\<lambda>s. s - {k}) (cell_at cs l p)"
proof (induction idxs arbitrary: cs)
  case Nil
  then show ?case by simp
next
  case (Cons index idxs)
  have eq: "(\<lparr>cellPosition = p, cellLevel = l\<rparr> = index) = (l = cellLevel index \<and> p = cellPosition index)"
    by (cases index) auto
  show ?case
  proof (cases "\<lparr>cellPosition = p, cellLevel = l\<rparr> \<in> set idxs")
    case True
    then show ?thesis
      using Cons.IH[OF True] by (auto simp: cell_at_cells_delete option.map_comp comp_def)
  next
    case False
    with Cons.prems eq have "l = cellLevel index \<and> p = cellPosition index" by simp
    then show ?thesis
      using False by (simp add: cell_at_delete_loop_out cell_at_cells_delete)
  qed
qed

lemma level_cells_add: "(cells_add cs l p k l' = None) = (l' \<noteq> l \<and> cs l' = None)"
  by (auto simp: cells_add_def Let_def)

lemma cell_at_cells_add:
  "cell_at (cells_add cs l p k) l' p' =
     (if l' = l \<and> p' = p then Some (insert k (slot cs l p)) else cell_at cs l' p')"
  by (auto simp: cell_at_def cells_add_def slot_def Let_def split: option.splits)

lemma level_set_loop:
  "(cells (set_loop g k leaf lv c) l = None) = (\<not> (0 \<le> l \<and> l \<le> lv) \<and> cells c l = None)"
proof (induction g k leaf lv c rule: set_loop.induct)
  case (1 g key leafCellID level c)
  show ?case
  proof (cases "level \<ge> 0")
    case True
    with 1 show ?thesis
      by (subst set_loop.simps) (auto simp: set_body_def Let_def level_cells_add)
  next
    case False
    then show ?thesis by (subst set_loop.simps) auto
  qed
qed

lemma cell_at_set_loop:
  "cell_at (cells (set_loop g k leaf lv c)) l p =
     (if 0 \<le> l \<and> l \<le> lv \<and> p = Pos g (Parent g leaf l) then Some (insert k (slot (cells c) l p))
      else cell_at (cells c) l p)"
proof (induction g k leaf lv c rule: set_loop.induct)
  case (1 g key leafCellID level c)
  show ?case
  proof (cases "level \<ge> 0")
    case True
    with 1 show ?thesis
      by (subst set_loop.simps) (auto simp: set_body_def Let_def cell_at_cells_add slot_cells_add)
  next
    case False
    then show ?thesis by (subst set_loop.simps) auto
  qed
qed

text \<open>Re-indexing a key at the cells it is already indexed under gives back the cell index.\<close>

lemma reindex_same_cells:
  assumes inv: "index_inv g c"
    and k: "keys c k = Some (ancestorIndices g leaf maxCellLevel)"
    and c0: "cells c0 = delete_loop (ancestorIndices g leaf maxCellLevel) k (cells c)"
  shows "cells (set_loop g k leaf maxCellLevel c0) = cells c"
    (is "cells ?c2 = _")
proof (rule cells_eqI)
  have present: "k \<in> slot (cells c) l (Pos g (Parent g leaf l))" if "0 \<le> l" "l \<le> maxCellLevel" for l
    using inv k that unfolding index_inv_def by (auto simp: mem_ancestorIndices)
  fix l
  show "(cells ?c2 l = None) = (cells c l = None)"
  proof (cases "0 \<le> l \<and> l \<le> maxCellLevel")
    case True
    with present[of l] have "cells c l \<noteq> None" by (auto simp: slot_def split: option.splits)
    with True show ?thesis by (simp add: level_set_loop)
  next
    case False
    then show ?thesis by (auto simp: level_set_loop level_delete_loop c0)
  qed
  fix p
  show "cell_at (cells ?c2) l p = cell_at (cells c) l p"
  proof (cases "0 \<le> l \<and> l \<le> maxCellLevel \<and> p = Pos g (Parent g leaf l)")
    case True
    then have mem: "\<lparr>cellPosition = p, cellLevel = l\<rparr> \<in> set (ancestorIndices g leaf maxCellLevel)"
      by (simp add: mem_ancestorIndices)
    from True present[of l] have "k \<in> slot (cells c) l p" by simp
    then obtain s where s: "cell_at (cells c) l p = Some s" "k \<in> s"
      by (auto simp: slot_cell_at split: option.splits)
    have "slot (cells c0) l p = s - {k}"
      using mem s by (simp add: slot_cell_at cell_at_delete_loop_in c0)
    then show ?thesis using True s by (auto simp: cell_at_set_loop)
  next
    case False
    then have "\<lparr>cellPosition = p, cellLevel = l\<rparr> \<notin> set (ancestorIndices g leaf maxCellLevel)"
      by (simp add: mem_ancestorIndices)
    with False show ?thesis by (auto simp: cell_at_set_loop cell_at_delete_loop_out c0)
  qed
qed

lemma Set_same_location:
  assumes inv: "index_inv g c" and r: "items c k = Some r"
  shows "Set g k v (latitude r) (longitude r) c = c\<lparr>items := (items c)(k \<mapsto> r\<lparr>contents := v\<rparr>)\<rparr>"
proof (cases "same_place c k (latitude r) (longitude r)")
  case True
  have e: "\<lparr>contents = v, latitude = latitude r, longitude = longitude r\<rparr> = r\<lparr>contents := v\<rparr>"
    by (cases r) simp
  show ?thesis by (simp only: Set_same_place[OF True] e)
next
  case False
  then have nan: "\<not> (float64_eq (latitude r) (latitude r) \<and> float64_eq (longitude r) (longitude r))"
    using r by (simp add: same_place_def)
  from inv r have "\<exists>la lo. same_location la lo r \<and>
      keys c k = Some (ancestorIndices g (CellIDFromLatLng g la lo) maxCellLevel)"
    unfolding index_inv_def by blast
  then obtain la lo where la: "same_location la lo r"
      "keys c k = Some (ancestorIndices g (CellIDFromLatLng g la lo) maxCellLevel)"
    by blast
  have "la = latitude r \<and> lo = longitude r"
    using la(1) nan by (auto simp: same_location_def float64_eq_def)
  with la(2) have k: "keys c k = Some (ancestorIndices g (CellIDFromLatLng g (latitude r) (longitude r)) maxCellLevel)"
    by simp
  let ?leaf = "CellIDFromLatLng g (latitude r) (longitude r)"
  let ?c' = "Set g k v (latitude r) (longitude r) c"
  have e: "\<lparr>contents = v, latitude = latitude r, longitude = longitude r\<rparr> = r\<lparr>contents := v\<rparr>"
    by (cases r) simp
  have i: "items ?c' = (items c)(k \<mapsto> r\<lparr>contents := v\<rparr>)"
    by (simp only: items_Set e)
  have ks: "keys ?c' = keys c"
    using k by (auto simp: keys_Set_reindex[OF False])
  have cs: "cells ?c' = cells c"
    using False k
    by (simp add: Set_def same_place_def Let_def delete_def reindex_same_cells[OF inv k])
  have m: "Collection.more ?c' = Collection.more c"
    by simp
  show ?thesis
    by (rule Collection.equality) (simp_all add: i ks cs)
qed


section \<open>Reachable states and the sample geometry\<close>

lemma float64_eq_cong: "float64_eq x y \<Longrightarrow> float64_eq x z = float64_eq y z"
  by (auto simp: float64_eq_def)

lemma leaf_of_value_s2_sample: "leaf_of_value s2_sample"
  unfolding leaf_of_value_def
proof (intro allI impI)
  fix lat lon lat' lon'
  assume "float64_eq lat lat' \<and> float64_eq lon lon'"
  then have "float64_eq lat z = float64_eq lat' z" "float64_eq lon z = float64_eq lon' z" for z
    by (simp_all add: float64_eq_cong)
  then show "CellIDFromLatLng s2_sample lat lon = CellIDFromLatLng s2_sample lat' lon'"
    by (simp add: s2_sample_def sample_CellIDFromLatLng_def)
qed

lemma indexed_leaf:
  assumes "index_inv g c" and "leaf_of_value g" and "items c k = Some r"
  shows "keys c k = Some (ancestorIndices g (CellIDFromLatLng g (latitude r) (longitude r)) maxCellLevel)"
proof -
  from assms(1,3) have "\<exists>la lo. same_location la lo r \<and>
      keys c k = Some (ancestorIndices g (CellIDFromLatLng g la lo) maxCellLevel)"
    unfolding index_inv_def by blast
  then obtain la lo where la: "same_location la lo r"
      "keys c k = Some (ancestorIndices g (CellIDFromLatLng g la lo) maxCellLevel)"
    by blast
  have "CellIDFromLatLng g la lo = CellIDFromLatLng g (latitude r) (longitude r)"
    using la(1) assms(2) unfolding same_location_def leaf_of_value_def by blast
  with la(2) show ?thesis by simp
qed

lemma keys_Set_leaf:
  assumes "index_inv g c" and "leaf_of_value g"
  shows "keys (Set g k v lat lon c) k = Some (ancestorIndices g (CellIDFromLatLng g lat lon) maxCellLevel)"
proof -
  have "index_inv g (Set g k v lat lon c)"
    using assms(1) by (rule index_inv_Set)
  moreover have "items (Set g k v lat lon c) k = Some \<lparr>contents = v, latitude = lat, longitude = lon\<rparr>"
    by (simp add: items_Set)
  ultimately show ?thesis
    using indexed_leaf[OF _ assms(2), of "Set g k v lat lon c" k] by fastforce
qed

lemma slot_of_key:
  assumes "index_inv g c" and "keys c k = Some (ancestorIndices g leaf maxCellLevel)"
  shows "(k \<in> slot (cells c) l p) = (0 \<le> l \<and> l \<le> maxCellLevel \<and> p = Pos g (Parent g leaf l))"
  using assms unfolding index_inv_def by (simp add: mem_ancestorIndices)

lemma finite_slot:
  assumes "index_inv g c"
  shows "finite (slot (cells c) l p)"
proof -
  have "slot (cells c) l p \<subseteq> dom (keys c)"
    using assms unfolding index_inv_def by auto
  moreover have "finite (dom (keys c))"
    using assms by (simp add: index_inv_def)
  ultimately show ?thesis by (rule finite_subset)
qed

lemma foundKeys_member:
  "cell \<in> set cu \<Longrightarrow> finite (slot (cells c) (Level g cell) (Pos g cell)) \<Longrightarrow>
     k \<in> slot (cells c) (Level g cell) (Pos g cell) \<Longrightarrow> k \<in># foundKeys g c cu"
  by (induction cu) auto

lemma length_ancestorIndices: "length (ancestorIndices g leaf maxCellLevel) = 31"
  by (simp add: ancestorIndices_def maxCellLevel_def)

lemma levels_ancestorIndices: "map cellLevel (ancestorIndices g leaf lv) = rev [0..lv]"
  by (simp add: ancestorIndices_def comp_def)

lemma slot_Set_NewCollection:
  "slot (cells (Set g k v lat lon (NewCollection :: ('k, 'v) Collection))) l p =
     (if 0 \<le> l \<and> l \<le> maxCellLevel \<and> p = Pos g (Parent g (CellIDFromLatLng g lat lon) l) then {k} else {})"
proof -
  have fresh: "\<not> same_place (NewCollection :: ('k, 'v) Collection) k lat lon"
    by (simp add: same_place_def NewCollection_def)
  have "slot (cells (delete k (NewCollection :: ('k, 'v) Collection))) l' p' = {}" for l' p'
    by (simp add: delete_def NewCollection_def slot_def)
  then show ?thesis by (simp add: slot_Set_reindex[OF fresh])
qed

lemma sample_leaf_chicago: "CellIDFromLatLng s2_sample chicago_lat chicago_lon = chicago_leaf"
  by (simp add: s2_sample_def sample_CellIDFromLatLng_def float64_eq_def float64_isNaN_def
      chicago_lat_def chicago_lon_def)

lemma sample_leaf_manhattan: "CellIDFromLatLng s2_sample manhattan_lat manhattan_lon = manhattan_leaf"
  by (simp add: s2_sample_def sample_CellIDFromLatLng_def float64_eq_def float64_isNaN_def
      float64_isZero_def chicago_lat_def chicago_lon_def manhattan_lat_def manhattan_lon_def)

lemma s2_Level_5: "s2_Level 0x880c000000000000 = 5"
  by code_simp

lemma s2_Level_faceCells: "cell \<in> set faceCells \<Longrightarrow> s2_Level cell = 0"
proof -
  have "s2_Level 0x1000000000000000 = 0" "s2_Level 0x3000000000000000 = 0"
    "s2_Level 0x5000000000000000 = 0" "s2_Level 0x7000000000000000 = 0"
    "s2_Level 0x9000000000000000 = 0" "s2_Level 0xb000000000000000 = 0"
    by code_simp+
  then show "cell \<in> set faceCells \<Longrightarrow> s2_Level cell = 0"
    by (auto simp: faceCells_def)
qed

lemma s2_Pos_faceCells: "cell \<in> set faceCells \<Longrightarrow> s2_Pos cell = 0x1000000000000000"
  by (auto simp: faceCells_def s2_Pos_def)


section \<open>The repository's tests, run on the model\<close>

text \<open>
  The expectations of \<^verbatim>\<open>TestCollection_Set\<close>, \<^verbatim>\<open>TestCollection_Delete\<close> and
  \<^verbatim>\<open>TestCollection_ItemsWithinDistance\<close>, with the S2 values of the sample geometry.
\<close>

lemma keys_NewCollection: "keys (NewCollection :: ('k, 'v) Collection) = Map.empty"
  by (simp add: NewCollection_def)

lemma s2_Level_chicago_leaf: "s2_Level chicago_leaf = 30"
  unfolding chicago_leaf_def by code_simp

lemma s2_Level_cell2: "s2_Level 0x89c2590043700000 = 20"
  by code_simp

lemma s2_Parent_manhattan_leaf_20: "s2_Parent manhattan_leaf 20 = 0x89c2590043700000"
  by (simp add: manhattan_leaf_def s2_Parent_def s2_lsbForLevel_def)

lemma test_Set_replaces_coordinates:
  fixes c :: "(int, string) Collection"
  assumes "c = run s2_sample [OpSet 0 (Some ''0'') chicago_lat chicago_lon,
                              OpSet 0 (Some ''0'') manhattan_lat manhattan_lon]"
  shows "dom (keys c) = {0}"
    and "0 \<in> slot (cells c) (Level s2_sample 0x89c2590043700000) (Pos s2_sample 0x89c2590043700000)"
    and "items c 0 = Some \<lparr>contents = Some ''0'', latitude = manhattan_lat, longitude = manhattan_lon\<rparr>"
proof -
  let ?c1 = "Set s2_sample (0::int) (Some ''0'') chicago_lat chicago_lon NewCollection"
  have c: "c = Set s2_sample 0 (Some ''0'') manhattan_lat manhattan_lon ?c1"
    by (simp add: assms run_def)
  have inv1: "index_inv s2_sample ?c1"
    by (rule index_inv_Set) (rule index_inv_NewCollection)
  then have inv: "index_inv s2_sample c"
    unfolding c by (rule index_inv_Set)
  have k: "keys c 0 = Some (ancestorIndices s2_sample manhattan_leaf maxCellLevel)"
    unfolding c using keys_Set_leaf[OF inv1 leaf_of_value_s2_sample]
    by (simp add: sample_leaf_manhattan)
  show "items c 0 = Some \<lparr>contents = Some ''0'', latitude = manhattan_lat, longitude = manhattan_lon\<rparr>"
    by (simp add: c items_Set)
  then have "dom (items c) = {0}"
    by (auto simp: c items_Set NewCollection_def split: if_splits)
  then show "dom (keys c) = {0}"
    using inv by (simp add: index_inv_def)
  show "0 \<in> slot (cells c) (Level s2_sample 0x89c2590043700000) (Pos s2_sample 0x89c2590043700000)"
    by (simp add: slot_of_key[OF inv k])
       (simp add: s2_sample_def s2_Level_cell2 s2_Parent_manhattan_leaf_20 maxCellLevel_def)
qed

lemma test_Delete_missing_key:
  fixes c :: "(int, string) Collection"
  assumes "c = Delete 1 (run s2_sample [OpSet 0 None chicago_lat chicago_lon])"
    and "0 \<le> level" and "level \<le> maxCellLevel"
  shows "keys c 1 = None"
    and "0 \<in> slot (cells c) level (Pos s2_sample (Parent s2_sample chicago_leaf level))"
    and "keys c 0 \<noteq> None"
proof -
  let ?c1 = "Set s2_sample (0::int) (None :: string option) chicago_lat chicago_lon NewCollection"
  have fresh: "\<not> same_place (NewCollection :: (int, string) Collection) 0 chicago_lat chicago_lon"
    by (simp add: same_place_def NewCollection_def)
  have c: "c = Delete 1 ?c1"
    by (simp add: assms run_def)
  show "keys c 1 = None"
    by (simp add: c Delete_def keys_delete)
  show "keys c 0 \<noteq> None"
    by (simp add: c Delete_def keys_delete keys_Set_reindex[OF fresh])
  have "0 \<in> slot (cells ?c1) level (Pos s2_sample (Parent s2_sample chicago_leaf level))"
    using assms(2,3) by (simp add: slot_Set_NewCollection sample_leaf_chicago)
  then show "0 \<in> slot (cells c) level (Pos s2_sample (Parent s2_sample chicago_leaf level))"
    by (simp add: c Delete_def slot_delete keys_Set_reindex[OF fresh] keys_NewCollection)
qed

lemma test_ItemsWithinDistance_relevant_results:
  "fst (ItemsWithinDistance s2_sample
       (run s2_sample [OpSet (0::int) (Some ''1'') chicago_lat chicago_lon,
                       OpSet 1 (Some ''2'') manhattan_lat manhattan_lon])
       search_lat search_lon meters_1000
       \<lparr>LevelMod = 1, MaxCells = 5, MaxLevel = 5, MinLevel = 5, UseFastCovering = False\<rparr>) =
     {#Some ''1''#}"
proof -
  let ?c1 = "Set s2_sample (0::int) (Some ''1'') chicago_lat chicago_lon NewCollection"
  let ?c = "Set s2_sample (1::int) (Some ''2'') manhattan_lat manhattan_lon ?c1"
  have cu: "cellUnion s2_sample search_lat search_lon meters_1000
       \<lparr>LevelMod = 1, MaxCells = 5, MaxLevel = 5, MinLevel = 5, UseFastCovering = False\<rparr> =
       [0x880c000000000000]"
    by (simp add: cellUnion_def s2_sample_def sample_Covering_def)
  have moved: "\<not> same_place ?c1 1 manhattan_lat manhattan_lon"
    by (simp add: same_place_def items_Set NewCollection_def)
  have p0: "Pos s2_sample (Parent s2_sample chicago_leaf 5) = 0x080c000000000000"
    by (simp add: s2_sample_def chicago_leaf_def s2_Pos_def s2_Parent_def s2_lsbForLevel_def)
  have p1: "Pos s2_sample (Parent s2_sample manhattan_leaf 5) = 0x09c4000000000000"
    by (simp add: s2_sample_def manhattan_leaf_def s2_Pos_def s2_Parent_def s2_lsbForLevel_def)
  have fresh: "\<not> same_place (NewCollection :: (int, string) Collection) 0 chicago_lat chicago_lon"
    by (simp add: same_place_def NewCollection_def)
  have k1: "keys ?c1 1 = None"
    by (simp add: keys_Set_reindex[OF fresh] keys_NewCollection)
  have s1: "slot (cells ?c1) 5 0x080c000000000000 = {0}"
    by (simp add: slot_Set_NewCollection sample_leaf_chicago p0 maxCellLevel_def)
  have "slot (cells (delete 1 ?c1)) 5 0x080c000000000000 = {0}"
    by (simp add: slot_delete k1 s1)
  then have s: "slot (cells ?c) 5 0x080c000000000000 = {0}"
    by (simp add: slot_Set_reindex[OF moved] sample_leaf_manhattan p1)
  have "foundKeys s2_sample ?c [0x880c000000000000] = {#0#}"
    using s by (simp add: s2_sample_def s2_Level_5 s2_Pos_def)
  then show ?thesis
    by (simp add: ItemsWithinDistance_def cu foundItems_def run_def items_Set)
qed

section \<open>What the index guarantees for a search and for a move\<close>

text \<open>
  The part of the radius search that the collection decides: in every state reached by
  \<open>Set\<close> and \<open>Delete\<close>, if the covering that S2 returns for the search contains a cell
  that contains the leaf cell of a stored item's location, then the contents of that item
  are among the contents returned.  Whether the covering has such a cell for an item at a
  given distance is decided by the floating-point division of line 160 and by the
  floating-point geometry of S2, which this theory does not model.
\<close>

lemma covered_item_is_found:
  assumes "leaf_of_value g"
    and "items (run g ops) k = Some r"
    and "cell \<in> set (cellUnion g lat lon distanceMeters params)"
    and "cell_contains g cell (CellIDFromLatLng g (latitude r) (longitude r))"
  shows "contents r \<in># fst (ItemsWithinDistance g (run g ops) lat lon distanceMeters params)"
proof -
  let ?c = "run g ops"
  let ?leaf = "CellIDFromLatLng g (latitude r) (longitude r)"
  have inv: "index_inv g ?c" by (rule index_inv_run)
  have "keys ?c k = Some (ancestorIndices g ?leaf maxCellLevel)"
    using inv assms(1,2) by (rule indexed_leaf)
  then have "k \<in> slot (cells ?c) (Level g cell) (Pos g cell)"
    using assms(4) by (simp add: slot_of_key[OF inv] cell_contains_def)
  with assms(3) have "k \<in># foundKeys g ?c (cellUnion g lat lon distanceMeters params)"
    by (simp add: foundKeys_member finite_slot[OF inv])
  then have "(case items ?c k of None \<Rightarrow> None | Some cont \<Rightarrow> contents cont)
      \<in># foundItems g ?c (cellUnion g lat lon distanceMeters params)"
    unfolding foundItems_def in_image_mset by (rule imageI)
  then show ?thesis
    using assms(2) by (simp add: ItemsWithinDistance_def Let_def)
qed

text \<open>
  A move, in terms of the sets that the index addresses by level and position: after
  \<open>Set\<close> at a first location and \<open>Set\<close> at a second, starting in any state that \<open>Set\<close> and
  \<open>Delete\<close> can build, the key is in a set exactly when the set's level and position are
  those of an ancestor of the second location's leaf cell, and the reverse index of the
  key lists exactly these levels and positions.
\<close>

lemma relocation_replaces_index:
  assumes "leaf_of_value g"
  shows "(\<forall>l p. (k \<in> slot (cells (Set g k v lat2 lon2 (Set g k v lat1 lon1 (run g ops)))) l p) =
            (0 \<le> l \<and> l \<le> maxCellLevel \<and> p = Pos g (Parent g (CellIDFromLatLng g lat2 lon2) l))) \<and>
         keys (Set g k v lat2 lon2 (Set g k v lat1 lon1 (run g ops))) k =
           Some (ancestorIndices g (CellIDFromLatLng g lat2 lon2) maxCellLevel)"
proof -
  let ?c1 = "Set g k v lat1 lon1 (run g ops)"
  let ?c2 = "Set g k v lat2 lon2 ?c1"
  have inv1: "index_inv g ?c1"
    by (rule index_inv_Set) (rule index_inv_run)
  then have inv2: "index_inv g ?c2"
    by (rule index_inv_Set)
  have k: "keys ?c2 k = Some (ancestorIndices g (CellIDFromLatLng g lat2 lon2) maxCellLevel)"
    using inv1 assms(1) by (rule keys_Set_leaf)
  show ?thesis
    using k by (simp add: slot_of_key[OF inv2 k])
qed


section \<open>The claims\<close>

text \<open>
  C2.  Index completeness: in every state reached from the empty collection by \<open>Set\<close> and
  \<open>Delete\<close> operations, every key with an item record has a reverse-index list of
  exactly 31 entries, one for each level from 30 down to 0; the set of the cell index
  that an entry names contains the key, and the position of the entry is the position
  of the ancestor, at the entry's level, of the leaf cell of the stored location.  The
  geometry is any one whose leaf cell is a function of the coordinates as numbers.
\<close>

theorem C2_index_completeness:
  assumes "leaf_of_value g" and "items (run g ops) k = Some r"
  shows "\<exists>idxs. keys (run g ops) k = Some idxs \<and> length idxs = 31 \<and>
           map cellLevel idxs = rev [0..maxCellLevel] \<and>
           (\<forall>index \<in> set idxs.
              k \<in> slot (cells (run g ops)) (cellLevel index) (cellPosition index) \<and>
              cellPosition index =
                Pos g (Parent g (CellIDFromLatLng g (latitude r) (longitude r)) (cellLevel index)))"
proof -
  let ?leaf = "CellIDFromLatLng g (latitude r) (longitude r)"
  have inv: "index_inv g (run g ops)" by (rule index_inv_run)
  have k: "keys (run g ops) k = Some (ancestorIndices g ?leaf maxCellLevel)"
    using inv assms by (rule indexed_leaf)
  have "k \<in> slot (cells (run g ops)) (cellLevel index) (cellPosition index) \<and>
        cellPosition index = Pos g (Parent g ?leaf (cellLevel index))"
    if "index \<in> set (ancestorIndices g ?leaf maxCellLevel)" for index
  proof -
    from that obtain l where "0 \<le> l" "l \<le> maxCellLevel"
        "index = \<lparr>cellPosition = Pos g (Parent g ?leaf l), cellLevel = l\<rparr>"
      by (auto simp: ancestorIndices_def)
    then show ?thesis by (simp add: slot_of_key[OF inv k])
  qed
  then have "\<forall>index \<in> set (ancestorIndices g ?leaf maxCellLevel).
      k \<in> slot (cells (run g ops)) (cellLevel index) (cellPosition index) \<and>
      cellPosition index = Pos g (Parent g ?leaf (cellLevel index))"
    by blast
  with k length_ancestorIndices[of g ?leaf] levels_ancestorIndices[of g ?leaf maxCellLevel]
  show ?thesis by blast
qed

theorem C2_index_completeness_witness:
  "leaf_of_value s2_sample \<and>
   items (run s2_sample [OpSet (0::int) (Some ''0'') chicago_lat chicago_lon,
                         OpSet 0 (Some ''0'') manhattan_lat manhattan_lon]) 0 =
     Some \<lparr>contents = Some ''0'', latitude = manhattan_lat, longitude = manhattan_lon\<rparr> \<and>
   (\<exists>idxs. keys (run s2_sample [OpSet (0::int) (Some ''0'') chicago_lat chicago_lon,
                                 OpSet 0 (Some ''0'') manhattan_lat manhattan_lon]) 0 = Some idxs \<and>
      length idxs = 31 \<and> map cellLevel idxs = rev [0..maxCellLevel])"
proof -
  have h: "items (run s2_sample [OpSet (0::int) (Some ''0'') chicago_lat chicago_lon,
                         OpSet 0 (Some ''0'') manhattan_lat manhattan_lon]) 0 =
     Some \<lparr>contents = Some ''0'', latitude = manhattan_lat, longitude = manhattan_lon\<rparr>"
    by (simp add: run_def items_Set)
  show ?thesis
    using h leaf_of_value_s2_sample C2_index_completeness[OF leaf_of_value_s2_sample h]
    by auto
qed


text \<open>
  C4.  A \<open>Set\<close> that changes the contents only: when the key has a record and \<open>Set\<close> is
  called with exactly the latitude and longitude stored in it, the result is the old
  collection with the contents of that record replaced; the cell index and the reverse
  index are the same maps as before.  This holds in every state that \<open>Set\<close> and \<open>Delete\<close>
  can build, and also when a stored coordinate is a NaN, which sends \<open>Set\<close> through its
  re-indexing branch.
\<close>

theorem C4_contents_only_update:
  assumes "items (run g ops) k = Some r"
  shows "Set g k v2 (latitude r) (longitude r) (run g ops) =
           (run g ops)\<lparr>items := (items (run g ops))(k \<mapsto> r\<lparr>contents := v2\<rparr>)\<rparr>"
  using index_inv_run assms by (rule Set_same_location)

theorem C4_contents_only_update_witness:
  "Set s2_sample 0 (Some ''1'') chicago_lat chicago_lon
       (run s2_sample [OpSet (0::int) (Some ''0'') chicago_lat chicago_lon]) =
     (run s2_sample [OpSet (0::int) (Some ''0'') chicago_lat chicago_lon])
       \<lparr>items := (items (run s2_sample [OpSet (0::int) (Some ''0'') chicago_lat chicago_lon]))
          (0 \<mapsto> \<lparr>contents = Some ''1'', latitude = chicago_lat, longitude = chicago_lon\<rparr>)\<rparr> \<and>
   \<not> float64_eq float64_NaN float64_NaN \<and>
   Set s2_sample 0 (Some ''1'') float64_NaN chicago_lon
       (run s2_sample [OpSet (0::int) (Some ''0'') float64_NaN chicago_lon]) =
     (run s2_sample [OpSet (0::int) (Some ''0'') float64_NaN chicago_lon])
       \<lparr>items := (items (run s2_sample [OpSet (0::int) (Some ''0'') float64_NaN chicago_lon]))
          (0 \<mapsto> \<lparr>contents = Some ''1'', latitude = float64_NaN, longitude = chicago_lon\<rparr>)\<rparr>"
proof -
  have h: "items (run s2_sample [OpSet (0::int) (Some ''0'') chicago_lat chicago_lon]) 0 =
     Some \<lparr>contents = Some ''0'', latitude = chicago_lat, longitude = chicago_lon\<rparr>"
    by (simp add: run_def items_Set)
  have h': "items (run s2_sample [OpSet (0::int) (Some ''0'') float64_NaN chicago_lon]) 0 =
     Some \<lparr>contents = Some ''0'', latitude = float64_NaN, longitude = chicago_lon\<rparr>"
    by (simp add: run_def items_Set)
  have n: "\<not> float64_eq float64_NaN float64_NaN"
    by (simp add: float64_eq_def float64_isNaN_def float64_NaN_def)
  show ?thesis
    using n C4_contents_only_update[OF h, of "Some ''1''"] C4_contents_only_update[OF h', of "Some ''1''"]
    by simp
qed

text \<open>
  C5.  Deleting an absent key changes nothing: in every state that \<open>Set\<close> and \<open>Delete\<close>
  can build, \<open>Delete\<close> of a key without an item record returns the very same collection
  (the same item records, reverse index and cell index).
\<close>

theorem C5_delete_absent_key:
  assumes "items (run g ops) k = None"
  shows "Delete k (run g ops) = run g ops"
proof -
  have "dom (items (run g ops)) = dom (keys (run g ops))"
    using index_inv_run[of g ops] by (simp add: index_inv_def)
  with assms have "keys (run g ops) k = None" by blast
  moreover have "(items (run g ops))(k := None) = items (run g ops)"
    using assms by (simp add: fun_upd_idem)
  ultimately show ?thesis by (simp add: Delete_def delete_def)
qed

theorem C5_delete_absent_key_witness:
  "items (run s2_sample [OpSet (0::int) (Some ''0'') chicago_lat chicago_lon]) 1 = None \<and>
   Delete 1 (run s2_sample [OpSet (0::int) (Some ''0'') chicago_lat chicago_lon]) =
     run s2_sample [OpSet 0 (Some ''0'') chicago_lat chicago_lon]"
proof -
  have h: "items (run s2_sample [OpSet (0::int) (Some ''0'') chicago_lat chicago_lon]) 1 = None"
    by (simp add: run_def items_Set NewCollection_def)
  show ?thesis using h C5_delete_absent_key[OF h] by simp
qed

text \<open>
  C6.  The claim that a key is returned at most once is what the code's own comment on
  \<open>cellItems\<close> (a map of cell ids to the keys contained in that cell) and its test
  (two stored items, two results) say; the code does not keep it.  The cell index is
  keyed by \<open>Pos\<close>, which drops the face bits of the cell id, so the six face cells share
  the one set of level 0 (\<open>s2_Pos_level_0\<close>).  A search whose covering is the six face cells returns the
  contents of the single stored item six times.
\<close>

theorem C6_face_covering_returns_item_six_times:
  "fst (ItemsWithinDistance s2_sample
       (run s2_sample [OpSet (0::int) (Some ''1'') chicago_lat chicago_lon])
       chicago_lat chicago_lon meters_20000000
       \<lparr>LevelMod = 1, MaxCells = 5, MaxLevel = 0, MinLevel = 0, UseFastCovering = False\<rparr>) =
     replicate_mset 6 (Some ''1'')"
proof -
  let ?c = "Set s2_sample (0::int) (Some ''1'') chicago_lat chicago_lon NewCollection"
  have cu: "cellUnion s2_sample chicago_lat chicago_lon meters_20000000
       \<lparr>LevelMod = 1, MaxCells = 5, MaxLevel = 0, MinLevel = 0, UseFastCovering = False\<rparr> = faceCells"
    by (simp add: cellUnion_def s2_sample_def sample_Covering_def meters_20000000_def meters_1000_def)
  have root: "Pos s2_sample (Parent s2_sample (CellIDFromLatLng s2_sample chicago_lat chicago_lon) 0) =
      0x1000000000000000"
    by (simp add: sample_leaf_chicago)
       (simp add: s2_sample_def chicago_leaf_def s2_Pos_def s2_Parent_def s2_lsbForLevel_def)
  have s: "slot (cells ?c) 0 0x1000000000000000 = {0}"
    using root by (simp add: slot_Set_NewCollection maxCellLevel_def)
  have face: "mset_set (slot (cells ?c) (Level s2_sample cell) (Pos s2_sample cell)) = {#0#}"
    if "cell \<in> set faceCells" for cell
    using that s2_Level_faceCells[OF that] s2_Pos_faceCells[OF that] s
    by (simp add: s2_sample_def)
  have "foundKeys s2_sample ?c faceCells = replicate_mset 6 0"
    by (simp add: faceCells_def face[unfolded faceCells_def] eval_nat_numeral)
  then show ?thesis
    by (simp add: ItemsWithinDistance_def cu foundItems_def run_def items_Set)
qed

text \<open>
  C7.  \<open>Set\<close> then \<open>Delete\<close>: in every state that \<open>Set\<close> and \<open>Delete\<close> can build, after
  \<open>Set\<close> of a key and \<open>Delete\<close> of the same key, \<open>ItemByKey\<close> returns nil for it and no
  set of the cell index, at any level and position, contains it.
\<close>

theorem C7_set_then_delete:
  "ItemByKey (Delete k (Set g k v lat lon (run g ops))) k = None \<and>
   (\<forall>l p. k \<notin> slot (cells (Delete k (Set g k v lat lon (run g ops)))) l p)"
proof -
  have "index_inv g (Set g k v lat lon (run g ops))"
    by (rule index_inv_Set) (rule index_inv_run)
  then show ?thesis
    by (simp add: Delete_def ItemByKey_def items_delete index_inv_slot_delete)
qed

theorem C7_set_then_delete_witness:
  "ItemByKey (Delete 5 (Set s2_sample (5::int) (Some ''x'') chicago_lat chicago_lon (run s2_sample []))) 5 = None \<and>
   (\<forall>l p. 5 \<notin> slot (cells (Delete 5 (Set s2_sample (5::int) (Some ''x'') chicago_lat chicago_lon (run s2_sample [])))) l p)"
  by (rule C7_set_then_delete)

text \<open>
  C8.  Pagination bounds, for the function modelled from the spec: for every collection,
  every enumeration of its stored keys and all integers \<open>pageSize\<close> and \<open>startIndex\<close>,
  \<open>GetItems\<close> returns at most \<open>pageSize\<close> values (none when \<open>pageSize\<close> is negative), and the
  empty sequence when \<open>startIndex\<close> is at least the number of stored items.
\<close>

theorem C8_pagination_bounds:
  assumes "distinct enumeration" and "set enumeration = dom (items c)"
  shows "length (GetItems enumeration c pageSize startIndex) \<le> nat pageSize \<and>
         (int (card (dom (items c))) \<le> startIndex \<longrightarrow>
            GetItems enumeration c pageSize startIndex = [])"
proof -
  have "card (dom (items c)) = length enumeration"
    using assms by (metis distinct_card)
  then show ?thesis
    by (auto simp: GetItems_def)
qed

theorem C8_pagination_bounds_witness:
  "distinct [0::int, 1] \<and>
   set [0::int, 1] = dom (items (run s2_sample [OpSet (0::int) (Some ''1'') chicago_lat chicago_lon,
                                                 OpSet 1 (Some ''1'') manhattan_lat manhattan_lon])) \<and>
   length (GetItems [0::int, 1]
             (run s2_sample [OpSet (0::int) (Some ''1'') chicago_lat chicago_lon,
                             OpSet 1 (Some ''1'') manhattan_lat manhattan_lon]) 1 0) \<le> 1 \<and>
   GetItems [0::int, 1]
     (run s2_sample [OpSet (0::int) (Some ''1'') chicago_lat chicago_lon,
                     OpSet 1 (Some ''1'') manhattan_lat manhattan_lon]) 10 2 = []"
proof -
  let ?c = "run s2_sample [OpSet (0::int) (Some ''1'') chicago_lat chicago_lon,
                           OpSet 1 (Some ''1'') manhattan_lat manhattan_lon]"
  have h1: "distinct [0::int, 1]" by simp
  have h2: "set [0::int, 1] = dom (items ?c)"
    by (auto simp: run_def items_Set NewCollection_def)
  have n: "card (dom (items ?c)) = 2"
    using h2[symmetric] by simp
  show ?thesis
    using h1 h2 n C8_pagination_bounds[OF h1 h2, of 1 0] C8_pagination_bounds[OF h1 h2, of 10 2]
    by simp
qed

text \<open>
  C9.  A stored nil reads like an absent key: after \<open>Set\<close> of a key with nil contents,
  \<open>ItemByKey\<close> of that key is nil, which is also what \<open>ItemByKey\<close> returns for a key that
  has no item record.
\<close>

theorem C9_stored_nil_reads_as_absent:
  assumes "items c' k' = None"
  shows "ItemByKey (Set g k None lat lon c) k = None \<and> ItemByKey c' k' = None"
  using assms by (simp add: ItemByKey_def items_Set)

theorem C9_stored_nil_reads_as_absent_witness:
  "items (NewCollection :: (int, string) Collection) 2 = None \<and>
   ItemByKey (Set s2_sample (0::int) (None :: string option) chicago_lat chicago_lon NewCollection) 0 = None \<and>
   ItemByKey (NewCollection :: (int, string) Collection) 2 = None"
proof -
  have h: "items (NewCollection :: (int, string) Collection) 2 = None"
    by (simp add: NewCollection_def)
  show ?thesis
    using h C9_stored_nil_reads_as_absent[OF h, of s2_sample 0 chicago_lat chicago_lon NewCollection]
    by simp
qed

text \<open>
  C10.  \<open>Delete\<close> of a key leaves every other key alone: for \<open>k2\<close> different from the
  deleted key, the item record of \<open>k2\<close>, its reverse-index list and its membership in
  every set of the cell index are the same before and after, in any state.
\<close>

theorem C10_delete_frames_other_keys:
  assumes "k2 \<noteq> k"
  shows "items (Delete k c) k2 = items c k2 \<and>
         keys (Delete k c) k2 = keys c k2 \<and>
         (\<forall>l p. (k2 \<in> slot (cells (Delete k c)) l p) = (k2 \<in> slot (cells c) l p))"
  using assms by (auto simp: Delete_def items_delete keys_delete slot_delete split: option.splits)

theorem C10_delete_frames_other_keys_witness:
  "(1::int) \<noteq> 0 \<and>
   items (Delete 0 (run s2_sample [OpSet (0::int) (Some ''1'') chicago_lat chicago_lon,
                                   OpSet 1 (Some ''2'') manhattan_lat manhattan_lon])) 1 =
     Some \<lparr>contents = Some ''2'', latitude = manhattan_lat, longitude = manhattan_lon\<rparr>"
  using C10_delete_frames_other_keys[of "1::int" 0
      "run s2_sample [OpSet (0::int) (Some ''1'') chicago_lat chicago_lon,
                      OpSet 1 (Some ''2'') manhattan_lat manhattan_lon]"]
  by (simp add: run_def items_Set)

end
